theory Spec2Isabelle
  imports Main "HOL-Library.Word" "HOL-Library.Monad_Syntax"
begin

section \<open>Error reporting: \<^verbatim>\<open>cub/util_debug.cuh\<close>\<close>

text \<open>
  \<^verbatim>\<open>cudaError_t\<close> is the runtime's status enumeration; the code only ever tests it
  against zero (\<^verbatim>\<open>if (error)\<close>), so it is modelled by its integer value, with
  \<^verbatim>\<open>cudaSuccess\<close> = 0.
\<close>

type_synonym cudaError_t = int

definition cudaSuccess :: cudaError_t where
  "cudaSuccess = 0"

text \<open>A \<^verbatim>\<open>dim3\<close> coordinate, in the order the device message prints it: z, y, x.\<close>

datatype dim3 = Dim3 nat nat nat

text \<open>
  What \<^verbatim>\<open>Debug\<close> prints. The host branch writes
  \<^verbatim>\<open>"CUDA error %d [%s, %d]: %s\n"\<close> to stderr (error, filename, line, error string);
  the device branch writes
  \<^verbatim>\<open>"CUDA error %d [block (%d,%d,%d) thread (%d,%d,%d), %s, %d]\n"\<close> to stdout
  (error, blockIdx, threadIdx, filename, line). A message is kept as its arguments.
\<close>

datatype message =
    HostError cudaError_t string int string
  | DeviceError cudaError_t dim3 dim3 string int

text \<open>
  The state \<^verbatim>\<open>Debug\<close> touches: the runtime's global error state (what
  \<^verbatim>\<open>cudaGetLastError\<close> reads and resets) and the two output streams.
\<close>

record runtime =
  last_error :: cudaError_t
  stderr_log :: "message list"
  stdout_log :: "message list"

text \<open>
  What is fixed where \<^verbatim>\<open>Debug\<close> is compiled and run: whether \<^verbatim>\<open>CUB_STDERR\<close>
  is defined, whether the code runs on the host (\<^verbatim>\<open>NV_IS_HOST\<close>), the coordinates of
  the executing thread, and the runtime's \<^verbatim>\<open>cudaGetErrorString\<close>.
\<close>

record debug_env =
  CUB_STDERR :: bool
  NV_IS_HOST :: bool
  blockIdx :: dim3
  threadIdx :: dim3
  cudaGetErrorString :: "cudaError_t \<Rightarrow> string"

text \<open>\<^verbatim>\<open>cudaGetLastError()\<close>: returns the global error state and resets it to success.\<close>

definition cudaGetLastError :: "runtime \<Rightarrow> cudaError_t \<times> runtime" where
  "cudaGetLastError s = (last_error s, s\<lparr>last_error := cudaSuccess\<rparr>)"

text \<open>The block of \<^verbatim>\<open>Debug\<close> under \<^verbatim>\<open>#ifdef CUB_STDERR\<close> (lines 74-104).\<close>

definition Debug_report ::
  "debug_env \<Rightarrow> cudaError_t \<Rightarrow> string \<Rightarrow> int \<Rightarrow> runtime \<Rightarrow> runtime" where
  "Debug_report env error filename line s =
     (if CUB_STDERR env then
        (if error \<noteq> 0 then
           (if NV_IS_HOST env then
              s\<lparr>stderr_log := stderr_log s @
                  [HostError error filename line (cudaGetErrorString env error)]\<rparr>
            else
              s\<lparr>stdout_log := stdout_log s @
                  [DeviceError error (blockIdx env) (threadIdx env) filename line]\<rparr>)
         else s)
      else s)"

text \<open>
  \<^verbatim>\<open>cudaError_t Debug(cudaError_t error, const char *filename, int line)\<close>:
  the call of \<^verbatim>\<open>cudaGetLastError\<close> (its result dropped), the report, and
  \<^verbatim>\<open>return error\<close>.
\<close>

definition Debug ::
  "debug_env \<Rightarrow> cudaError_t \<Rightarrow> string \<Rightarrow> int \<Rightarrow> runtime \<Rightarrow> cudaError_t \<times> runtime" where
  "Debug env error filename line s =
     (let s1 = snd (cudaGetLastError s);
          s2 = Debug_report env error filename line s1
      in (error, s2))"

section \<open>The sequential reference: \<^verbatim>\<open>Solve\<close> of \<^verbatim>\<open>test_device_reduce_by_key.cu\<close>\<close>

text \<open>
  Host arrays are lists; the length of the list is the number of elements the array was
  allocated with. C++ does not check an index, and an access outside the array is
  undefined behaviour: the model makes every access checked, and \<open>None\<close> is the result
  of a run that touched an array outside its bounds. Indices and counters are C
  \<^verbatim>\<open>int\<close>s; the loop only increments a counter that is below \<^verbatim>\<open>num_items\<close>,
  so no counter leaves the range of \<^verbatim>\<open>int\<close> and they are modelled by unbounded
  integers.
\<close>

definition load :: "'a list \<Rightarrow> int \<Rightarrow> 'a option" where
  "load xs i = (if 0 \<le> i \<and> i < int (length xs) then Some (xs ! nat i) else None)"

definition store :: "'a list \<Rightarrow> int \<Rightarrow> 'a \<Rightarrow> 'a list option" where
  "store xs i v = (if 0 \<le> i \<and> i < int (length xs) then Some (xs[nat i := v]) else None)"

text \<open>
  The locals of \<^verbatim>\<open>Solve\<close> and the two output arrays it writes
  (\<^verbatim>\<open>h_keys_reference\<close>, \<^verbatim>\<open>h_values_reference\<close>).
\<close>

record ('k, 'v) solve_state =
  previous :: 'k
  aggregate :: 'v
  num_segments :: int
  h_keys_reference :: "'k list"
  h_values_reference :: "'v list"

text \<open>
  The loop \<^verbatim>\<open>for (int i = 1; i < num_items; ++i)\<close> (lines 339-353), with the reads and
  writes in the order of the source: the key is read for the comparison, a new run writes
  the finished one and restarts the aggregate, the same run folds the value in, and the
  key is read again into \<^verbatim>\<open>previous\<close>.
\<close>

function Solve_loop ::
  "'k list \<Rightarrow> 'v list \<Rightarrow> ('k \<Rightarrow> 'k \<Rightarrow> bool) \<Rightarrow> ('v \<Rightarrow> 'v \<Rightarrow> 'v) \<Rightarrow> int \<Rightarrow> int \<Rightarrow>
   ('k, 'v) solve_state \<Rightarrow> ('k, 'v) solve_state option" where
  "Solve_loop h_keys_in h_values_in equality_op reduction_op num_items i st =
     (if i < num_items then
        do {
          k \<leftarrow> load h_keys_in i;
          st1 \<leftarrow>
            (if \<not> equality_op (previous st) k then
               do {
                 kr \<leftarrow> store (h_keys_reference st) (num_segments st) (previous st);
                 vr \<leftarrow> store (h_values_reference st) (num_segments st) (aggregate st);
                 v \<leftarrow> load h_values_in i;
                 Some (st\<lparr>h_keys_reference := kr, h_values_reference := vr,
                           num_segments := num_segments st + 1, aggregate := v\<rparr>)
               }
             else
               do {
                 v \<leftarrow> load h_values_in i;
                 Some (st\<lparr>aggregate := reduction_op (aggregate st) v\<rparr>)
               });
          k' \<leftarrow> load h_keys_in i;
          Solve_loop h_keys_in h_values_in equality_op reduction_op num_items (i + 1)
            (st1\<lparr>previous := k'\<rparr>)
        }
      else Some st)"
  by pat_completeness auto
termination
  by (relation "measure (\<lambda>(ks, vs, eq, f, n, i, st). nat (n - i))") auto

declare Solve_loop.simps [simp del]

text \<open>
  \<^verbatim>\<open>int Solve(h_keys_in, h_keys_reference, h_values_in, h_values_reference, equality_op,
  reduction_op, num_items)\<close>: the first item is read before the loop, whatever
  \<^verbatim>\<open>num_items\<close> is, and the last run is written after it. The result is the two
  output arrays and the returned number of segments.
\<close>

definition Solve ::
  "'k list \<Rightarrow> 'k list \<Rightarrow> 'v list \<Rightarrow> 'v list \<Rightarrow> ('k \<Rightarrow> 'k \<Rightarrow> bool) \<Rightarrow> ('v \<Rightarrow> 'v \<Rightarrow> 'v) \<Rightarrow> int \<Rightarrow>
   ('k list \<times> 'v list \<times> int) option" where
  "Solve h_keys_in h_keys_reference0 h_values_in h_values_reference0
         equality_op reduction_op num_items =
     do {
       p \<leftarrow> load h_keys_in 0;
       a \<leftarrow> load h_values_in 0;
       st \<leftarrow> Solve_loop h_keys_in h_values_in equality_op reduction_op num_items 1
               \<lparr>previous = p, aggregate = a, num_segments = 0,
                h_keys_reference = h_keys_reference0,
                h_values_reference = h_values_reference0\<rparr>;
       kr \<leftarrow> store (h_keys_reference st) (num_segments st) (previous st);
       vr \<leftarrow> store (h_values_reference st) (num_segments st) (aggregate st);
       Some (kr, vr, num_segments st + 1)
     }"

section \<open>The two entry paths: \<^verbatim>\<open>Dispatch\<close> of \<^verbatim>\<open>test_device_reduce_by_key.cu\<close>\<close>

text \<open>
  A \<^verbatim>\<open>cudaStream_t\<close> handle; 0 is the default stream.
\<close>

type_synonym cudaStream_t = nat

text \<open>
  The arguments both \<^verbatim>\<open>Dispatch\<close> overloads and the kernel take, under their names
  in the source. \<^verbatim>\<open>d_temp_storage\<close> is \<open>None\<close> for a null pointer;
  \<^verbatim>\<open>temp_storage_bytes\<close> is the value the reference parameter holds at the call.
  The inputs are read only and are kept as lists. The output pointers
  (\<^verbatim>\<open>d_keys_out\<close>, \<^verbatim>\<open>d_values_out\<close>, \<^verbatim>\<open>d_num_runs\<close>) point into the device
  memory, which is passed as a state.
\<close>

record ('k, 'v) dispatch_args =
  timing_timing_iterations :: int
  d_temp_storage :: "nat option"
  temp_storage_bytes :: nat
  d_keys_in :: "'k list"
  d_values_in :: "'v list"
  equality_op :: "'k \<Rightarrow> 'k \<Rightarrow> bool"
  reduction_op :: "'v \<Rightarrow> 'v \<Rightarrow> 'v"
  num_items :: int
  stream :: cudaStream_t
  debug_synchronous :: bool

text \<open>
  \<^verbatim>\<open>DeviceReduce::ReduceByKey\<close> is declared in \<^verbatim>\<open>cub/device/device_reduce.cuh\<close>,
  which is not among the sources at hand. The call at lines 107-118 fixes what it is given:
  the scratch pointer, the byte count (by reference), the inputs, the outputs and the
  run counter (in the device memory \<open>'m\<close>), the reduction operator, the number of items,
  the stream and the debug flag. No equality operator is among them. It returns a status
  and leaves a byte count and a device memory. \<^verbatim>\<open>Dispatch\<close> is modelled for any
  function of this type.
\<close>

type_synonym ('k, 'v, 'm) reduce_by_key =
  "nat option \<Rightarrow> nat \<Rightarrow> 'k list \<Rightarrow> 'v list \<Rightarrow> ('v \<Rightarrow> 'v \<Rightarrow> 'v) \<Rightarrow> int \<Rightarrow> cudaStream_t \<Rightarrow> bool \<Rightarrow>
   'm \<Rightarrow> cudaError_t \<times> nat \<times> 'm"

text \<open>
  \<^verbatim>\<open>Dispatch(Int2Type<CUB>, ...)\<close>, lines 84-121: \<^verbatim>\<open>error\<close> starts as
  \<^verbatim>\<open>cudaSuccess\<close> and each of the \<^verbatim>\<open>timing_timing_iterations\<close> rounds assigns it the
  status of one \<^verbatim>\<open>ReduceByKey\<close> call. The parameters \<^verbatim>\<open>d_temp_storage_bytes\<close>,
  \<^verbatim>\<open>d_cdp_error\<close> and \<^verbatim>\<open>equality_op\<close> are unnamed in the source and never used. The
  result is the returned status, the final \<^verbatim>\<open>temp_storage_bytes\<close> and the device
  memory.
\<close>

function Dispatch_CUB_loop ::
  "('k, 'v, 'm) reduce_by_key \<Rightarrow> ('k, 'v) dispatch_args \<Rightarrow> int \<Rightarrow>
   cudaError_t \<times> nat \<times> 'm \<Rightarrow> cudaError_t \<times> nat \<times> 'm" where
  "Dispatch_CUB_loop ReduceByKey a i (error, bytes, m) =
     (if i < timing_timing_iterations a then
        Dispatch_CUB_loop ReduceByKey a (i + 1)
          (ReduceByKey (d_temp_storage a) bytes (d_keys_in a) (d_values_in a)
             (reduction_op a) (num_items a) (stream a) (debug_synchronous a) m)
      else (error, bytes, m))"
  by pat_completeness auto
termination
  by (relation "measure (\<lambda>(r, a, i, s). nat (timing_timing_iterations a - i))") auto

declare Dispatch_CUB_loop.simps [simp del]

definition Dispatch_CUB ::
  "('k, 'v, 'm) reduce_by_key \<Rightarrow> ('k, 'v) dispatch_args \<Rightarrow> 'm \<Rightarrow> cudaError_t \<times> nat \<times> 'm" where
  "Dispatch_CUB ReduceByKey a m =
     Dispatch_CUB_loop ReduceByKey a 0 (cudaSuccess, temp_storage_bytes a, m)"







section \<open>Runs of a key sequence\<close>

text \<open>
  The specification speaks of the maximal contiguous runs of the input under the equality
  operator. An input is a list of (key, value) pairs. A list of runs \<open>rs\<close> is the run
  segmentation of \<open>xs\<close> when the runs are non-empty and concatenate to \<open>xs\<close>, neighbours
  inside a run compare equal (the earlier key on the left, as the code calls the operator),
  and the last key of a run does not compare equal to the first key of the next. The
  operator is only ever applied to neighbours, so no property of it (symmetry,
  transitivity) is assumed.
\<close>

definition maximal_runs ::
  "('k \<Rightarrow> 'k \<Rightarrow> bool) \<Rightarrow> ('k \<times> 'v) list \<Rightarrow> ('k \<times> 'v) list list \<Rightarrow> bool" where
  "maximal_runs eq xs rs =
     (concat rs = xs \<and> [] \<notin> set rs \<and>
      (\<forall>r \<in> set rs. successively eq (map fst r)) \<and>
      successively (\<lambda>r s. \<not> eq (fst (last r)) (fst (hd s))) rs)"

text \<open>The segmentation, computed: every input has exactly one (lemmas below).\<close>

fun runs :: "('k \<Rightarrow> 'k \<Rightarrow> bool) \<Rightarrow> ('k \<times> 'v) list \<Rightarrow> ('k \<times> 'v) list list" where
  "runs eq [] = []"
| "runs eq [x] = [[x]]"
| "runs eq (x # y # zs) =
     (if eq (fst x) (fst y)
      then (case runs eq (y # zs) of [] \<Rightarrow> [[x]] | r # rs \<Rightarrow> (x # r) # rs)
      else [x] # runs eq (y # zs))"

text \<open>
  What is emitted for a run: the key of its last item (\<^verbatim>\<open>previous\<close> at the time of the
  write) and the left fold of the reduction operator over its values in input order,
  seeded with the first value.
\<close>

definition run_key :: "('k \<times> 'v) list \<Rightarrow> 'k" where
  "run_key r = fst (last r)"

definition run_fold :: "('v \<Rightarrow> 'v \<Rightarrow> 'v) \<Rightarrow> ('k \<times> 'v) list \<Rightarrow> 'v" where
  "run_fold f r = foldl f (snd (hd r)) (map snd (tl r))"

section \<open>The device operation, from the specification\<close>

text \<open>
  Modelled from the spec: the tuning policy record of section 3 (the policy headers of
  the library are missing from the sources at hand).
\<close>

record TuningPolicy =
  tile_size :: nat
  block_threads :: nat
  items_per_thread :: nat
  load_algorithm_tag :: nat
  store_algorithm_tag :: nat

text \<open>
  Modelled from the spec: PolicySelector of section 4.2 (missing from the sources). The
  table is ordered from the highest architecture threshold down; the first band whose
  threshold the architecture reaches is taken, and an architecture below all thresholds
  falls back to the lowest supported band.
\<close>

fun PolicySelector :: "TuningPolicy \<Rightarrow> (nat \<times> TuningPolicy) list \<Rightarrow> nat \<Rightarrow> TuningPolicy" where
  "PolicySelector lowest [] arch = lowest"
| "PolicySelector lowest ((threshold, p) # bands) arch =
     (if threshold \<le> arch then p else PolicySelector lowest bands arch)"

text \<open>Modelled from the spec: the two stages of KernelPipeline, section 4.4 (missing).\<close>

datatype stage = StageA | StageB

text \<open>
  Modelled from the spec: what a dispatch depends on besides its arguments (all of it
  missing from the sources): the detected architecture and the policy table for the key
  and value types (section 4.2), the size and alignment of the aggregate record and of the
  counter scratch (section 4.3), the status of the size computation (section 4.1: a device
  query may fail) and the status each stage's launch ends with (section 7).
\<close>

record rbk_env =
  architecture_version :: nat
  lowest_band :: TuningPolicy
  bands :: "(nat \<times> TuningPolicy) list"
  sizeOf_AggregateRecord :: nat
  alignOf_AggregateRecord :: nat
  counter_scratch_bytes :: nat
  counter_scratch_align :: nat
  size_computation_status :: cudaError_t
  stage_status :: "stage \<Rightarrow> cudaError_t"

text \<open>
  Modelled from the spec: a region of a TemporaryStorageRequest (section 3) is
  (region id, byte size, alignment).
\<close>

type_synonym region = "nat \<times> nat \<times> nat"

text \<open>
  Modelled from the spec: TemporaryStorageLayout of section 4.3 (missing from the
  sources). The number of tiles is the number of items divided by the tile size, rounded
  up; the regions are, in order, the per-tile aggregate array and the fixed-size counter
  scratch; every offset is rounded up to the region's alignment; the total is the end of
  the last region. Tile sizes and alignments of a policy table are positive.
\<close>

definition align_up :: "nat \<Rightarrow> nat \<Rightarrow> nat" where
  "align_up n a = ((n + a - 1) div a) * a"

text \<open>Modelled from the spec: the number of tiles, section 4.3 (missing).\<close>

definition num_tiles :: "TuningPolicy \<Rightarrow> nat \<Rightarrow> nat" where
  "num_tiles pol numItems = (numItems + tile_size pol - 1) div tile_size pol"

text \<open>Modelled from the spec: the ordered regions a dispatch requests, sections 3 and 4.3 (missing).\<close>

definition TemporaryStorageRequest :: "TuningPolicy \<Rightarrow> rbk_env \<Rightarrow> nat \<Rightarrow> region list" where
  "TemporaryStorageRequest pol env numItems =
     [(1, num_tiles pol numItems * sizeOf_AggregateRecord env, alignOf_AggregateRecord env),
      (2, counter_scratch_bytes env, counter_scratch_align env)]"

text \<open>Modelled from the spec: the aligned offset of every region, section 4.3 (missing).\<close>

fun region_offsets :: "nat \<Rightarrow> region list \<Rightarrow> (nat \<times> nat) list" where
  "region_offsets off [] = []"
| "region_offsets off ((rid, sz, al) # rs) =
     (rid, align_up off al) # region_offsets (align_up off al + sz) rs"

text \<open>Modelled from the spec: the total size of the aligned regions, section 4.3 (missing).\<close>

fun total_bytes :: "nat \<Rightarrow> region list \<Rightarrow> nat" where
  "total_bytes off [] = off"
| "total_bytes off ((rid, sz, al) # rs) = total_bytes (align_up off al + sz) rs"

text \<open>Modelled from the spec: a layout is the region offsets and the byte count, section 4.3 (missing).\<close>

record layout =
  layout_offsets :: "(nat \<times> nat) list"
  layout_bytes :: nat

text \<open>Modelled from the spec: TemporaryStorageLayout for a policy and a number of items, section 4.3 (missing).\<close>

definition TemporaryStorageLayout :: "TuningPolicy \<Rightarrow> rbk_env \<Rightarrow> nat \<Rightarrow> layout" where
  "TemporaryStorageLayout pol env numItems =
     \<lparr>layout_offsets = region_offsets 0 (TemporaryStorageRequest pol env numItems),
      layout_bytes = total_bytes 0 (TemporaryStorageRequest pol env numItems)\<rparr>"

text \<open>
  Modelled from the spec: the layout a dispatch works with, sections 4.1 and 4.3 (missing
  from the sources): that of the selected policy and the number of items.
\<close>

definition query_layout :: "rbk_env \<Rightarrow> int \<Rightarrow> layout" where
  "query_layout env numItems =
     TemporaryStorageLayout
       (PolicySelector (lowest_band env) (bands env) (architecture_version env)) env (nat numItems)"

text \<open>
  Modelled from the spec: the device memory one dispatch works on (the device side of the
  library is missing from the sources): the output keys and values, the run counter, the
  aggregate state Stage A publishes in the scratch buffer (section 3), and what the debug
  flag adds (section 4.1): the forced synchronisation points and the diagnostic log.
\<close>

record ('k, 'v) rbk_memory =
  d_keys_out :: "'k list"
  d_values_out :: "'v list"
  d_num_runs :: int
  aggregates :: "('k \<times> 'v) list"
  sync_points :: nat
  diagnostic_log :: "stage list"

text \<open>
  Modelled from the spec: a store of the leading elements of an output buffer (missing
  from the sources); the buffer keeps its length.
\<close>

definition write_prefix :: "'a list \<Rightarrow> 'a list \<Rightarrow> 'a list" where
  "write_prefix ys xs = take (length xs) (ys @ drop (length ys) xs)"

text \<open>
  Modelled from the spec: Stage A of section 4.4 (missing from the sources), by what it
  publishes once every tile has resolved its predecessor: per run, in input order, the key
  and the fold of the reduction operator over the run (section 8). The entry point takes no
  equality operator (section 4.1), so runs are those of the keys' own equality. How tiles
  share the work (look-back, polling) is not modelled.
\<close>

definition StageA_scan ::
  "'k list \<Rightarrow> 'v list \<Rightarrow> ('v \<Rightarrow> 'v \<Rightarrow> 'v) \<Rightarrow> nat \<Rightarrow> ('k, 'v) rbk_memory \<Rightarrow> ('k, 'v) rbk_memory" where
  "StageA_scan keysIn valuesIn reductionOp numItems mem =
     mem\<lparr>aggregates :=
       map (\<lambda>r. (run_key r, run_fold reductionOp r))
         (runs (=) (take numItems (zip keysIn valuesIn)))\<rparr>"

text \<open>
  Modelled from the spec: Stage B of section 4.4 (missing from the sources): the pairs of
  the finished runs are written to the outputs and the total run count is published. With
  no items nothing is written to the key and value buffers and the count is zero.
\<close>

definition StageB_materialize :: "('k, 'v) rbk_memory \<Rightarrow> ('k, 'v) rbk_memory" where
  "StageB_materialize mem =
     mem\<lparr>d_keys_out := write_prefix (map fst (aggregates mem)) (d_keys_out mem),
         d_values_out := write_prefix (map snd (aggregates mem)) (d_values_out mem),
         d_num_runs := int (length (aggregates mem))\<rparr>"

text \<open>
  Modelled from the spec: KernelPipeline of sections 3, 4.1, 4.4 and 7 (missing from the
  sources): the stages run in order; a stage that fails abandons the call with its
  status; with the debug flag a synchronisation point and a log entry follow every stage;
  the status of the whole is that of the terminal stage.
\<close>

fun KernelPipeline ::
  "rbk_env \<Rightarrow> bool \<Rightarrow> (stage \<times> (('k, 'v) rbk_memory \<Rightarrow> ('k, 'v) rbk_memory)) list \<Rightarrow>
   ('k, 'v) rbk_memory \<Rightarrow> cudaError_t \<times> ('k, 'v) rbk_memory" where
  "KernelPipeline env debugSynchronous [] mem = (cudaSuccess, mem)"
| "KernelPipeline env debugSynchronous ((s, body) # rest) mem =
     (if stage_status env s \<noteq> cudaSuccess then (stage_status env s, mem)
      else
        (let mem1 = body mem;
             mem2 = (if debugSynchronous
                     then mem1\<lparr>sync_points := sync_points mem1 + 1,
                               diagnostic_log := diagnostic_log mem1 @ [s]\<rparr>
                     else mem1)
         in KernelPipeline env debugSynchronous rest mem2))"

text \<open>
  Modelled from the spec: \<^verbatim>\<open>DeviceReduce::ReduceByKey\<close>, the DispatchEntrypoint of
  section 4.1 (declared in \<^verbatim>\<open>cub/device/device_reduce.cuh\<close>, missing from the sources).
  With a null scratch pointer it writes the required byte count and does nothing else,
  succeeding unless the size computation fails; otherwise it runs the pipeline on the
  caller's scratch memory and returns the terminal stage's status.
\<close>

definition DeviceReduce_ReduceByKey ::
  "rbk_env \<Rightarrow> ('k, 'v, ('k, 'v) rbk_memory) reduce_by_key" where
  "DeviceReduce_ReduceByKey env tempStoragePtr tempStorageBytes keysIn valuesIn reductionOp
       numItems on_stream debugSynchronous mem =
     (case tempStoragePtr of
        None \<Rightarrow>
          (if size_computation_status env \<noteq> cudaSuccess
           then (size_computation_status env, tempStorageBytes, mem)
           else (cudaSuccess, layout_bytes (query_layout env numItems), mem))
      | Some p \<Rightarrow>
          (case KernelPipeline env debugSynchronous
                  [(StageA, StageA_scan keysIn valuesIn reductionOp (nat numItems)),
                   (StageB, StageB_materialize)] mem of
             (status, mem') \<Rightarrow> (status, tempStorageBytes, mem')))"

text \<open>
  What a caller reads back after a dispatch: the status, the output keys, the output
  values and the run count.
\<close>

definition results ::
  "cudaError_t \<times> nat \<times> ('k, 'v) rbk_memory \<Rightarrow> cudaError_t \<times> 'k list \<times> 'v list \<times> int" where
  "results r =
     (case r of (status, b, mem) \<Rightarrow> (status, d_keys_out mem, d_values_out mem, d_num_runs mem))"

section \<open>Auxiliary definitions for the proofs\<close>

text \<open>
  The loop of \<^verbatim>\<open>Solve\<close> as a recursion over the items still to be read: the pairs
  written from here on, the one written after the loop included.
\<close>

fun segs ::
  "('k \<Rightarrow> 'k \<Rightarrow> bool) \<Rightarrow> ('v \<Rightarrow> 'v \<Rightarrow> 'v) \<Rightarrow> 'k \<Rightarrow> 'v \<Rightarrow> ('k \<times> 'v) list \<Rightarrow> ('k \<times> 'v) list" where
  "segs eq f p a [] = [(p, a)]"
| "segs eq f p a ((k, v) # r) =
     (if eq p k then segs eq f k (f a v) r else (p, a) # segs eq f k v r)"

text \<open>An array with the elements from \<open>pos\<close> on replaced by \<open>ys\<close>.\<close>

definition overwrite :: "'a list \<Rightarrow> nat \<Rightarrow> 'a list \<Rightarrow> 'a list" where
  "overwrite xs pos ys = take pos xs @ ys @ drop (pos + length ys) xs"

text \<open>The statements of \<^verbatim>\<open>Solve\<close> after its loop (lines 355-359).\<close>

definition Solve_finish :: "('k, 'v) solve_state \<Rightarrow> ('k list \<times> 'v list \<times> int) option" where
  "Solve_finish st =
     do {
       kr \<leftarrow> store (h_keys_reference st) (num_segments st) (previous st);
       vr \<leftarrow> store (h_values_reference st) (num_segments st) (aggregate st);
       Some (kr, vr, num_segments st + 1)
     }"

text \<open>The loop invariant: the pairs still to be written fit into the output arrays.\<close>

definition fits ::
  "('k \<Rightarrow> 'k \<Rightarrow> bool) \<Rightarrow> ('v \<Rightarrow> 'v \<Rightarrow> 'v) \<Rightarrow> ('k, 'v) solve_state \<Rightarrow> ('k \<times> 'v) list \<Rightarrow> bool" where
  "fits eq f st zs =
     (0 \<le> num_segments st \<and>
      nat (num_segments st) + length (segs eq f (previous st) (aggregate st) zs)
        \<le> length (h_keys_reference st) \<and>
      nat (num_segments st) + length (segs eq f (previous st) (aggregate st) zs)
        \<le> length (h_values_reference st))"

text \<open>What \<^verbatim>\<open>Solve\<close> returns when it continues from a state with the items \<open>zs\<close> left.\<close>

definition expected ::
  "('k \<Rightarrow> 'k \<Rightarrow> bool) \<Rightarrow> ('v \<Rightarrow> 'v \<Rightarrow> 'v) \<Rightarrow> ('k, 'v) solve_state \<Rightarrow> ('k \<times> 'v) list \<Rightarrow>
   ('k list \<times> 'v list \<times> int) option" where
  "expected eq f st zs =
     Some (overwrite (h_keys_reference st) (nat (num_segments st))
             (map fst (segs eq f (previous st) (aggregate st) zs)),
           overwrite (h_values_reference st) (nat (num_segments st))
             (map snd (segs eq f (previous st) (aggregate st) zs)),
           num_segments st + int (length (segs eq f (previous st) (aggregate st) zs)))"

text \<open>The device memory without what the debug flag adds.\<close>

definition core :: "('k, 'v) rbk_memory \<Rightarrow> 'k list \<times> 'v list \<times> int \<times> ('k \<times> 'v) list" where
  "core mem = (d_keys_out mem, d_values_out mem, d_num_runs mem, aggregates mem)"

definition same_results ::
  "cudaError_t \<times> nat \<times> ('k, 'v) rbk_memory \<Rightarrow> cudaError_t \<times> nat \<times> ('k, 'v) rbk_memory \<Rightarrow> bool" where
  "same_results r r' =
     (case r of (e, b, m) \<Rightarrow> case r' of (e', b', m') \<Rightarrow> e = e' \<and> b = b' \<and> core m = core m')"

text \<open>Concrete inputs for the examples: two distinct keys, cleared outputs, one policy table.\<close>

definition two_keys :: "(int \<Rightarrow> int \<Rightarrow> bool) \<Rightarrow> (int, int) dispatch_args" where
  "two_keys eq =
     \<lparr>timing_timing_iterations = 1, d_temp_storage = Some 0, temp_storage_bytes = 0,
      d_keys_in = [1, 2], d_values_in = [10, 20], equality_op = eq,
      reduction_op = (+), num_items = 2, stream = 0, debug_synchronous = True\<rparr>"

definition cleared :: "(int, int) rbk_memory" where
  "cleared =
     \<lparr>d_keys_out = [0, 0], d_values_out = [0, 0], d_num_runs = 0, aggregates = [],
      sync_points = 0, diagnostic_log = []\<rparr>"


definition sm_test :: rbk_env where
  "sm_test =
     \<lparr>architecture_version = 800,
      lowest_band = \<lparr>tile_size = 768, block_threads = 128, items_per_thread = 6,
                      load_algorithm_tag = 0, store_algorithm_tag = 0\<rparr>,
      bands = [(350, \<lparr>tile_size = 1024, block_threads = 128, items_per_thread = 8,
                       load_algorithm_tag = 1, store_algorithm_tag = 1\<rparr>)],
      sizeOf_AggregateRecord = 16, alignOf_AggregateRecord = 16,
      counter_scratch_bytes = 4, counter_scratch_align = 4,
      size_computation_status = 0,
      stage_status = (\<lambda>s. 0)\<rparr>"

section \<open>Properties of the error reporting\<close>

lemma Debug_report_last_error:
  "last_error (Debug_report env error filename line s) = last_error s"
  by (simp add: Debug_report_def)

text \<open>
  Claim C8. For every status code, file name and line number, \<^verbatim>\<open>Debug\<close> returns
  exactly the status it was given, whatever the status is and whether or not
  \<^verbatim>\<open>CUB_STDERR\<close> is defined (the environment \<open>env\<close> is arbitrary).
\<close>

theorem Debug_returns_status:
  "fst (Debug env error filename line s) = error"
  by (simp add: Debug_def Let_def)

text \<open>
  Claim C9. \<^verbatim>\<open>Debug\<close> clears the global error state before it reports or returns:
  the report runs on the state \<^verbatim>\<open>cudaGetLastError\<close> left, in which the error state
  is success, and the state \<^verbatim>\<open>Debug\<close> returns has a cleared error state too. The
  code clears unconditionally, so this holds for every status, the non-success ones of
  the claim included.
\<close>

theorem Debug_clears_last_error:
  "last_error (snd (cudaGetLastError s)) = cudaSuccess \<and>
   snd (Debug env error filename line s) =
     Debug_report env error filename line (snd (cudaGetLastError s)) \<and>
   last_error (snd (Debug env error filename line s)) = cudaSuccess"
  by (simp add: Debug_def Let_def Debug_report_last_error cudaGetLastError_def)

section \<open>The loop of \<^verbatim>\<open>Solve\<close>\<close>

lemma segs_length_ge: "1 \<le> length (segs eq f p a xs)"
  by (induction eq f p a xs rule: segs.induct) auto

lemma segs_length_le: "length (segs eq f p a xs) \<le> Suc (length xs)"
  by (induction eq f p a xs rule: segs.induct) auto

lemma overwrite_single: "pos < length xs \<Longrightarrow> overwrite xs pos [y] = xs[pos := y]"
  by (simp add: overwrite_def upd_conv_take_nth_drop)

lemma overwrite_step:
  "pos < length xs \<Longrightarrow> overwrite (xs[pos := y]) (Suc pos) ys = overwrite xs pos (y # ys)"
  by (simp add: overwrite_def take_Suc_conv_app_nth)

lemma length_overwrite: "pos + length ys \<le> length xs \<Longrightarrow> length (overwrite xs pos ys) = length xs"
  by (simp add: overwrite_def)

lemma load_Some: "0 \<le> i \<Longrightarrow> nat i < length xs \<Longrightarrow> load xs i = Some (xs ! nat i)"
  by (simp add: load_def)

lemma store_Some: "0 \<le> i \<Longrightarrow> nat i < length xs \<Longrightarrow> store xs i v = Some (xs[nat i := v])"
  by (simp add: store_def)

lemma fits_pos:
  assumes "fits eq f st zs"
  shows "0 \<le> num_segments st"
    and "nat (num_segments st) < length (h_keys_reference st)"
    and "nat (num_segments st) < length (h_values_reference st)"
  using assms segs_length_ge[of eq f "previous st" "aggregate st" zs]
  by (simp_all add: fits_def)

lemma Solve_loop_segs:
  assumes "0 \<le> i" "i \<le> n" "nat n \<le> length ks" "nat n \<le> length vs"
    and "fits eq f st (drop (nat i) (take (nat n) (zip ks vs)))"
  shows "Solve_loop ks vs eq f n i st \<bind> Solve_finish =
           expected eq f st (drop (nat i) (take (nat n) (zip ks vs)))"
  using assms
proof (induction ks vs eq f n i st rule: Solve_loop.induct)
  case (1 ks vs eq f n i st)
  let ?zs = "take (nat n) (zip ks vs)"
  note pos = fits_pos[OF "1.prems"(5)]
  show ?case
  proof (cases "i < n")
    case False
    with "1.prems" have "i = n" by simp
    then have d: "drop (nat i) ?zs = []" by simp
    from False show ?thesis
      by (subst Solve_loop.simps)
         (simp add: d Solve_finish_def expected_def store_Some pos overwrite_single)
  next
    case True
    with "1.prems" have i: "nat i < nat n" "nat i < length ks" "nat i < length vs"
      by simp_all
    define k where "k = ks ! nat i"
    define v where "v = vs ! nat i"
    define rest where "rest = drop (nat (i + 1)) ?zs"
    have lk: "load ks i = Some k"
      using i "1.prems"(1) by (simp add: load_Some k_def)
    have lv: "load vs i = Some v"
      using i "1.prems"(1) by (simp add: load_Some v_def)
    have d: "drop (nat i) ?zs = (k, v) # rest"
    proof -
      have len: "nat i < length ?zs"
        using i by simp
      have "drop (nat i) ?zs = ?zs ! nat i # drop (Suc (nat i)) ?zs"
        using len by (rule Cons_nth_drop_Suc[symmetric])
      moreover have "?zs ! nat i = (k, v)"
        using i by (simp add: k_def v_def)
      moreover have "Suc (nat i) = nat (i + 1)"
        using "1.prems"(1) by simp
      ultimately show ?thesis by (simp add: rest_def)
    qed
    have f0: "fits eq f st ((k, v) # rest)"
      using "1.prems"(5) by (simp add: d)
    show ?thesis
    proof (cases "eq (previous st) k")
      case same: True
      define st1 where "st1 = st\<lparr>aggregate := f (aggregate st) v\<rparr>"
      have "Solve_loop ks vs eq f n (i + 1) (st1\<lparr>previous := k\<rparr>) \<bind> Solve_finish =
              expected eq f (st1\<lparr>previous := k\<rparr>) (drop (nat (i + 1)) ?zs)"
        using True "1.prems"(1-4) f0 same
        by (intro "1.IH"[OF True lk _ lk])
           (simp_all add: st1_def lv fits_def rest_def)
      moreover have "expected eq f (st1\<lparr>previous := k\<rparr>) rest = expected eq f st ((k, v) # rest)"
        using same by (simp add: expected_def st1_def)
      ultimately show ?thesis
        using True same
        by (subst Solve_loop.simps) (simp add: lk lv d st1_def rest_def)
    next
      case diff: False
      define st1 where "st1 = st\<lparr>h_keys_reference := (h_keys_reference st)[nat (num_segments st) := previous st],
          h_values_reference := (h_values_reference st)[nat (num_segments st) := aggregate st],
          num_segments := num_segments st + 1, aggregate := v\<rparr>"
      have sk: "store (h_keys_reference st) (num_segments st) (previous st) =
                  Some ((h_keys_reference st)[nat (num_segments st) := previous st])"
        by (simp add: store_Some pos)
      have sv: "store (h_values_reference st) (num_segments st) (aggregate st) =
                  Some ((h_values_reference st)[nat (num_segments st) := aggregate st])"
        by (simp add: store_Some pos)
      have n1: "nat (num_segments st + 1) = Suc (nat (num_segments st))"
        using pos(1) by simp
      have "Solve_loop ks vs eq f n (i + 1) (st1\<lparr>previous := k\<rparr>) \<bind> Solve_finish =
              expected eq f (st1\<lparr>previous := k\<rparr>) (drop (nat (i + 1)) ?zs)"
        using True "1.prems"(1-4) f0 diff
        by (intro "1.IH"[OF True lk _ lk])
           (simp_all add: st1_def lv sk sv fits_def rest_def n1)
      moreover have "expected eq f (st1\<lparr>previous := k\<rparr>) rest = expected eq f st ((k, v) # rest)"
        using diff pos by (simp add: expected_def st1_def n1 overwrite_step)
      ultimately show ?thesis
        using True diff
        by (subst Solve_loop.simps) (simp add: lk lv sk sv d st1_def rest_def)
    qed
  qed
qed

section \<open>Runs: existence, uniqueness, and the pairs \<^verbatim>\<open>Solve\<close> writes\<close>

lemma runs_Cons: "\<exists>r rs. runs eq (x # xs) = (x # r) # rs"
proof (induction xs arbitrary: x)
  case Nil
  show ?case by simp
next
  case (Cons y ys)
  from Cons[of y] obtain r rs where "runs eq (y # ys) = (y # r) # rs" by blast
  then show ?case by simp
qed

lemma runs_maximal: "maximal_runs eq xs (runs eq xs)"
proof (induction eq xs rule: runs.induct)
  case (1 eq)
  show ?case by (simp add: maximal_runs_def)
next
  case (2 eq x)
  show ?case by (simp add: maximal_runs_def)
next
  case (3 eq x y zs)
  obtain r rs where r: "runs eq (y # zs) = (y # r) # rs"
    using runs_Cons by blast
  show ?case
  proof (cases "eq (fst x) (fst y)")
    case True
    with "3.IH"(1) r show ?thesis
      by (auto simp: maximal_runs_def successively_Cons)
  next
    case False
    with "3.IH"(2) r show ?thesis
      by (auto simp: maximal_runs_def successively_Cons)
  qed
qed

lemma maximal_runs_unique: "maximal_runs eq xs rs \<Longrightarrow> rs = runs eq xs"
proof (induction eq xs arbitrary: rs rule: runs.induct)
  case (1 eq)
  then show ?case by (cases rs) (auto simp: maximal_runs_def)
next
  case (2 eq x)
  then have c: "concat rs = [x]" and ne: "[] \<notin> set rs"
    by (auto simp: maximal_runs_def)
  then obtain r rs' where rs: "rs = r # rs'"
    by (cases rs) auto
  with c ne have r: "r = [x]" and "concat rs' = []"
    by (auto simp: append_eq_Cons_conv)
  with ne rs have "rs' = []"
    by (cases rs') auto
  with rs r show ?case by simp
next
  case (3 eq x y zs)
  from "3.prems" obtain r' rs' where rs: "rs = (x # r') # rs'"
    by (cases rs; cases "hd rs") (auto simp: maximal_runs_def)
  show ?case
  proof (cases r')
    case Nil
    with "3.prems" rs have c: "concat rs' = y # zs" and ne: "[] \<notin> set rs'"
      by (auto simp: maximal_runs_def)
    then obtain s ss where s: "rs' = (y # s) # ss"
      by (cases rs'; cases "hd rs'") auto
    from "3.prems" rs Nil s have neq: "\<not> eq (fst x) (fst y)"
      by (simp add: maximal_runs_def)
    from "3.prems" rs Nil have "maximal_runs eq (y # zs) rs'"
      by (auto simp: maximal_runs_def successively_Cons)
    with "3.IH"(2) neq have "rs' = runs eq (y # zs)" by simp
    with neq rs Nil show ?thesis by simp
  next
    case (Cons y' r'')
    with "3.prems" rs have y': "y' = y" and e: "eq (fst x) (fst y)"
      by (auto simp: maximal_runs_def)
    from "3.prems" rs Cons have "maximal_runs eq (y # zs) (r' # rs')"
      by (auto simp: maximal_runs_def successively_Cons)
    with "3.IH"(1) e have "r' # rs' = runs eq (y # zs)" by simp
    with e rs show ?thesis by (simp flip: \<open>r' # rs' = runs eq (y # zs)\<close>)
  qed
qed

lemma segs_runs_gen:
  "segs eq f p a xs =
     (case runs eq ((p, a0) # xs) of
        [] \<Rightarrow> []
      | r # rs \<Rightarrow> (run_key r, foldl f a (map snd (tl r))) #
                  map (\<lambda>r. (run_key r, run_fold f r)) rs)"
proof (induction xs arbitrary: p a a0)
  case Nil
  show ?case by (simp add: run_key_def)
next
  case (Cons kv xs)
  obtain k v where kv: "kv = (k, v)" by (cases kv)
  obtain r rs where r: "runs eq ((k, v) # xs) = ((k, v) # r) # rs"
    using runs_Cons by blast
  show ?case
  proof (cases "eq p k")
    case True
    with Cons[of k "f a v" v] r kv show ?thesis
      by (simp add: run_key_def)
  next
    case False
    with Cons[of k v v] r kv show ?thesis
      by (simp add: run_key_def run_fold_def)
  qed
qed

lemma segs_runs:
  "segs eq f (fst x) (snd x) xs = map (\<lambda>r. (run_key r, run_fold f r)) (runs eq (x # xs))"
proof -
  obtain r rs where r: "runs eq (x # xs) = (x # r) # rs"
    using runs_Cons by blast
  with segs_runs_gen[of eq f "fst x" "snd x" xs "snd x"] show ?thesis
    by (simp add: run_fold_def)
qed

lemma Solve_segs:
  assumes "1 \<le> n" "nat n \<le> length ks" "nat n \<le> length vs"
    and "nat n \<le> length kref" "nat n \<le> length vref"
  shows "Solve ks kref vs vref eq f n =
           Some (overwrite kref 0 (map fst (segs eq f (ks ! 0) (vs ! 0) (drop 1 (take (nat n) (zip ks vs))))),
                 overwrite vref 0 (map snd (segs eq f (ks ! 0) (vs ! 0) (drop 1 (take (nat n) (zip ks vs))))),
                 int (length (segs eq f (ks ! 0) (vs ! 0) (drop 1 (take (nat n) (zip ks vs))))))"
proof -
  let ?st = "\<lparr>previous = ks ! 0, aggregate = vs ! 0, num_segments = 0,
               h_keys_reference = kref, h_values_reference = vref\<rparr>"
  let ?zs = "take (nat n) (zip ks vs)"
  from assms have "0 < nat n" by simp
  with assms have "0 < length ks" "0 < length vs" by linarith+
  then have l: "load ks 0 = Some (ks ! 0)" "load vs 0 = Some (vs ! 0)"
    by (simp_all add: load_def)
  have "length (segs eq f (ks ! 0) (vs ! 0) (drop 1 ?zs)) \<le> Suc (length (drop 1 ?zs))"
    by (rule segs_length_le)
  also have "\<dots> = nat n" using assms by simp
  finally have "fits eq f ?st (drop (nat 1) ?zs)"
    using assms by (simp add: fits_def)
  with assms have "Solve_loop ks vs eq f n 1 ?st \<bind> Solve_finish = expected eq f ?st (drop (nat 1) ?zs)"
    by (intro Solve_loop_segs) simp_all
  moreover have "Solve ks kref vs vref eq f n = Solve_loop ks vs eq f n 1 ?st \<bind> Solve_finish"
    by (simp add: Solve_def l Solve_finish_def[abs_def])
  ultimately show ?thesis
    by (simp add: expected_def)
qed

lemma segs_one_run:
  "successively eq (p # map fst xs) \<Longrightarrow>
   segs eq f p a xs = [(last (p # map fst xs), foldl f a (map snd xs))]"
  by (induction eq f p a xs rule: segs.induct) auto


lemma input_split:
  assumes "1 \<le> n" "nat n \<le> length ks" "nat n \<le> length vs"
  shows "take (nat n) (zip ks vs) = (ks ! 0, vs ! 0) # drop 1 (take (nat n) (zip ks vs))"
    and "map fst (take (nat n) (zip ks vs)) = take (nat n) ks"
    and "map snd (take (nat n) (zip ks vs)) = take (nat n) vs"
proof -
  let ?zs = "take (nat n) (zip ks vs)"
  from assms have "0 < nat n" by simp
  with assms have pos: "0 < length ?zs" by simp
  then have "?zs = ?zs ! 0 # drop 1 ?zs"
    by (cases ?zs) simp_all
  moreover have "?zs ! 0 = (ks ! 0, vs ! 0)"
    using pos by simp
  ultimately show "?zs = (ks ! 0, vs ! 0) # drop 1 ?zs" by simp
  have "map fst ?zs = take (nat n) (map fst (zip ks vs))"
    by (simp add: take_map)
  also have "\<dots> = take (nat n) ks"
    using assms by (simp add: map_fst_zip_take min_absorb1)
  finally show "map fst ?zs = take (nat n) ks" .
  have "map snd ?zs = take (nat n) (map snd (zip ks vs))"
    by (simp add: take_map)
  also have "\<dots> = take (nat n) vs"
    using assms by (simp add: map_snd_zip_take min_absorb1)
  finally show "map snd ?zs = take (nat n) vs" .
qed

lemma Solve_one_run:
  assumes "1 \<le> n" "nat n \<le> length ks" "nat n \<le> length vs"
    and "nat n \<le> length kref" "nat n \<le> length vref"
    and "successively eq (take (nat n) ks)"
  shows "Solve ks kref vs vref eq f n =
           Some (kref[0 := last (take (nat n) ks)],
                 vref[0 := foldl f (vs ! 0) (tl (take (nat n) vs))], 1)"
proof -
  let ?zs = "take (nat n) (zip ks vs)"
  note sp = input_split[OF assms(1-3)]
  have k: "ks ! 0 # map fst (drop 1 ?zs) = take (nat n) ks"
    using sp(1) sp(2) by (metis list.simps(9) fst_conv)
  have v: "map snd (drop 1 ?zs) = tl (take (nat n) vs)"
    using sp(3) by (simp flip: sp(3) add: map_tl drop_Suc)
  have "segs eq f (ks ! 0) (vs ! 0) (drop 1 ?zs) =
          [(last (ks ! 0 # map fst (drop 1 ?zs)), foldl f (vs ! 0) (map snd (drop 1 ?zs)))]"
    using assms(6) by (intro segs_one_run) (simp only: k)
  moreover from assms have "0 < length kref" "0 < length vref" by linarith+
  ultimately show ?thesis
    using Solve_segs[OF assms(1-5), of eq f]
    by (simp only: k v) (simp add: overwrite_single)
qed


lemma Solve_runs:
  assumes "1 \<le> n" "nat n \<le> length ks" "nat n \<le> length vs"
    and "nat n \<le> length kref" "nat n \<le> length vref"
  shows "Solve ks kref vs vref eq f n =
           Some (map run_key (runs eq (take (nat n) (zip ks vs))) @
                   drop (length (runs eq (take (nat n) (zip ks vs)))) kref,
                 map (run_fold f) (runs eq (take (nat n) (zip ks vs))) @
                   drop (length (runs eq (take (nat n) (zip ks vs)))) vref,
                 int (length (runs eq (take (nat n) (zip ks vs)))))"
proof -
  let ?zs = "take (nat n) (zip ks vs)"
  have "segs eq f (ks ! 0) (vs ! 0) (drop 1 ?zs) =
          map (\<lambda>r. (run_key r, run_fold f r)) (runs eq ((ks ! 0, vs ! 0) # drop 1 ?zs))"
    using segs_runs[of eq f "(ks ! 0, vs ! 0)" "drop 1 ?zs"] by simp
  also have "(ks ! 0, vs ! 0) # drop 1 ?zs = ?zs"
    using input_split(1)[OF assms(1-3)] by simp
  finally have "segs eq f (ks ! 0) (vs ! 0) (drop 1 ?zs) =
      map (\<lambda>r. (run_key r, run_fold f r)) (runs eq ?zs)" .
  with Solve_segs[OF assms(1-5), of eq f] show ?thesis
    by (simp add: overwrite_def comp_def)
qed

lemma runs_length: "length (runs eq xs) \<le> length xs"
proof (induction eq xs rule: runs.induct)
  case (3 eq x y zs)
  obtain r rs where "runs eq (y # zs) = (y # r) # rs"
    using runs_Cons by blast
  with 3 show ?case by (cases "eq (fst x) (fst y)") simp_all
qed simp_all

section \<open>The entry paths and the modelled device operation\<close>




lemma core_debug:
  "core (mem\<lparr>sync_points := n, diagnostic_log := l\<rparr>) = core mem"
  by (simp add: core_def)

lemma KernelPipeline_debug:
  assumes "core m = core m'"
    and "\<And>s body x x'. (s, body) \<in> set stages \<Longrightarrow> core x = core x' \<Longrightarrow> core (body x) = core (body x')"
  shows "fst (KernelPipeline env d stages m) = fst (KernelPipeline env d' stages m') \<and>
         core (snd (KernelPipeline env d stages m)) = core (snd (KernelPipeline env d' stages m'))"
  using assms
proof (induction stages arbitrary: m m')
  case Nil
  then show ?case by simp
next
  case (Cons sb stages)
  obtain s body where sb: "sb = (s, body)" by (cases sb)
  have b: "core (body m) = core (body m')"
    using Cons.prems(2)[of s body m m'] Cons.prems(1) by (simp add: sb)
  show ?case
  proof (cases "stage_status env s = cudaSuccess")
    case False
    with Cons.prems(1) show ?thesis by (simp add: sb)
  next
    case True
    define m2 where "m2 = (if d then (body m)\<lparr>sync_points := sync_points (body m) + 1,
        diagnostic_log := diagnostic_log (body m) @ [s]\<rparr> else body m)"
    define m2' where "m2' = (if d' then (body m')\<lparr>sync_points := sync_points (body m') + 1,
        diagnostic_log := diagnostic_log (body m') @ [s]\<rparr> else body m')"
    have c: "core m2 = core m2'"
      using b by (simp add: m2_def m2'_def core_debug)
    have IH: "fst (KernelPipeline env d stages m2) = fst (KernelPipeline env d' stages m2') \<and>
         core (snd (KernelPipeline env d stages m2)) = core (snd (KernelPipeline env d' stages m2'))"
    proof (rule Cons.IH)
      show "core m2 = core m2'" by (rule c)
      show "core (body' x) = core (body' x')"
        if "(s', body') \<in> set stages" "core x = core x'" for s' body' x x'
        using that Cons.prems(2)[of s' body' x x'] by simp
    qed
    have "KernelPipeline env d (sb # stages) m = KernelPipeline env d stages m2"
      using True by (simp add: sb m2_def Let_def)
    moreover have "KernelPipeline env d' (sb # stages) m' = KernelPipeline env d' stages m2'"
      using True by (simp add: sb m2'_def Let_def)
    ultimately show ?thesis
      using IH by simp
  qed
qed

lemma StageA_core: "core x = core x' \<Longrightarrow> core (StageA_scan ks vs f n x) = core (StageA_scan ks vs f n x')"
  by (simp add: core_def StageA_scan_def)

lemma StageB_core: "core x = core x' \<Longrightarrow> core (StageB_materialize x) = core (StageB_materialize x')"
  by (simp add: core_def StageB_materialize_def)

lemma ReduceByKey_debug:
  assumes "core m = core m'"
  shows "same_results (DeviceReduce_ReduceByKey env p b ks vs f n s d m) (DeviceReduce_ReduceByKey env p b ks vs f n s' d' m')"
proof (cases p)
  case None
  with assms show ?thesis
    by (simp add: DeviceReduce_ReduceByKey_def same_results_def)
next
  case (Some q)
  have "fst (KernelPipeline env d [(StageA, StageA_scan ks vs f (nat n)), (StageB, StageB_materialize)] m) =
        fst (KernelPipeline env d' [(StageA, StageA_scan ks vs f (nat n)), (StageB, StageB_materialize)] m') \<and>
        core (snd (KernelPipeline env d [(StageA, StageA_scan ks vs f (nat n)), (StageB, StageB_materialize)] m)) =
        core (snd (KernelPipeline env d' [(StageA, StageA_scan ks vs f (nat n)), (StageB, StageB_materialize)] m'))"
    using assms by (intro KernelPipeline_debug) (auto intro: StageA_core StageB_core)
  with Some show ?thesis
    by (auto simp add: DeviceReduce_ReduceByKey_def same_results_def
          simp del: KernelPipeline.simps split: prod.splits)
qed

lemma Dispatch_CUB_loop_debug:
  assumes "same_results r r'"
  shows "same_results
           (Dispatch_CUB_loop (DeviceReduce_ReduceByKey env) (a\<lparr>debug_synchronous := d\<rparr>) i r)
           (Dispatch_CUB_loop (DeviceReduce_ReduceByKey env) (a\<lparr>debug_synchronous := d'\<rparr>) i r')"
  using assms
proof (induction "nat (timing_timing_iterations a - i)" arbitrary: i r r')
  case 0
  then show ?case
    by (cases r; cases r') (simp add: Dispatch_CUB_loop.simps[of _ _ i])
next
  case (Suc k)
  obtain e b m where r: "r = (e, b, m)" by (cases r)
  obtain e' b' m' where r': "r' = (e', b', m')" by (cases r')
  from Suc.prems r r' have eq: "b' = b" "core m = core m'"
    by (simp_all add: same_results_def)
  from Suc.hyps(2) have lt: "i < timing_timing_iterations a" by simp
  from Suc.hyps(2) have k: "k = nat (timing_timing_iterations a - (i + 1))" by simp
  have "same_results
          (DeviceReduce_ReduceByKey env (d_temp_storage a) b (d_keys_in a) (d_values_in a) (reduction_op a)
             (num_items a) (stream a) d m)
          (DeviceReduce_ReduceByKey env (d_temp_storage a) b (d_keys_in a) (d_values_in a) (reduction_op a)
             (num_items a) (stream a) d' m')"
    using eq(2) by (rule ReduceByKey_debug)
  from Suc.hyps(1)[OF k this] lt show ?case
    by (simp add: r r' eq(1) Dispatch_CUB_loop.simps[of _ _ i])
qed

lemma null_storage_query_loop:
  assumes "d_temp_storage a = None"
  shows "Dispatch_CUB_loop (DeviceReduce_ReduceByKey env) a i (e, b, m) =
           (if i < timing_timing_iterations a
            then (size_computation_status env,
                  if size_computation_status env = cudaSuccess
                  then layout_bytes (query_layout env (num_items a)) else b, m)
            else (e, b, m))"
proof (induction "nat (timing_timing_iterations a - i)" arbitrary: i e b)
  case 0
  then show ?case
    by (simp add: Dispatch_CUB_loop.simps[of _ _ i])
next
  case (Suc k)
  from Suc.hyps(2) have lt: "i < timing_timing_iterations a" by simp
  from Suc.hyps(2) have k: "k = nat (timing_timing_iterations a - (i + 1))" by simp
  show ?case
  proof (cases "size_computation_status env = cudaSuccess")
    case True
    with Suc.hyps(1)[OF k, of cudaSuccess "layout_bytes (query_layout env (num_items a))"] lt assms
    show ?thesis
      by (simp add: Dispatch_CUB_loop.simps[of _ _ i] DeviceReduce_ReduceByKey_def)
  next
    case False
    with Suc.hyps(1)[OF k, of "size_computation_status env" b] lt assms
    show ?thesis
      by (simp add: Dispatch_CUB_loop.simps[of _ _ i] DeviceReduce_ReduceByKey_def)
  qed
qed

lemma null_storage_query:
  assumes "d_temp_storage a = None" "0 < timing_timing_iterations a"
  shows "Dispatch_CUB (DeviceReduce_ReduceByKey env) a m =
           (size_computation_status env,
            if size_computation_status env = cudaSuccess
            then layout_bytes (query_layout env (num_items a)) else temp_storage_bytes a, m)"
  using assms by (simp add: Dispatch_CUB_def null_storage_query_loop)

text \<open>
  The modelled operation and the reference agree, which is what the test asserts: on
  \<open>n \<ge> 1\<close> items, with output buffers of at least \<open>n\<close> elements and both stages
  succeeding, the operation leaves the keys, values and run count that \<^verbatim>\<open>Solve\<close>
  computes with \<open>=\<close> as its equality operator.
\<close>

lemma write_prefix_fits:
  "length ys \<le> length xs \<Longrightarrow> write_prefix ys xs = ys @ drop (length ys) xs"
  by (simp add: write_prefix_def)

lemma modelled_operation_agrees_with_Solve:
  assumes "1 \<le> n" "nat n \<le> length ks" "nat n \<le> length vs"
    and "nat n \<le> length (d_keys_out m)" "nat n \<le> length (d_values_out m)"
    and "stage_status env StageA = cudaSuccess" "stage_status env StageB = cudaSuccess"
  shows "case DeviceReduce_ReduceByKey env (Some p) b ks vs f n s d m of
           (status, b', m') \<Rightarrow>
             status = cudaSuccess \<and> b' = b \<and>
             Solve ks (d_keys_out m) vs (d_values_out m) (=) f n =
               Some (d_keys_out m', d_values_out m', d_num_runs m')"
proof -
  let ?rs = "runs (=) (take (nat n) (zip ks vs))"
  have "length ?rs \<le> length (take (nat n) (zip ks vs))"
    by (rule runs_length)
  with assms(2,3) have le: "length ?rs \<le> nat n" by simp
  with assms(4,5) have "length ?rs \<le> length (d_keys_out m)" "length ?rs \<le> length (d_values_out m)"
    by simp_all
  then show ?thesis
    using Solve_runs[OF assms(1-5), of "(=)" f] assms(6,7)
    by (simp add: DeviceReduce_ReduceByKey_def StageA_scan_def StageB_materialize_def Let_def
          write_prefix_fits comp_def)
qed

text \<open>
  With no items the modelled operation reports zero runs, leaves the key and value
  buffers as they were and succeeds when both stages do.
\<close>

lemma modelled_operation_no_items:
  assumes "stage_status env StageA = cudaSuccess" "stage_status env StageB = cudaSuccess"
  shows "case DeviceReduce_ReduceByKey env (Some p) b ks vs f 0 s d m of
           (status, b', m') \<Rightarrow>
             status = cudaSuccess \<and> d_num_runs m' = 0 \<and>
             d_keys_out m' = d_keys_out m \<and> d_values_out m' = d_values_out m"
  using assms
  by (simp add: DeviceReduce_ReduceByKey_def StageA_scan_def StageB_materialize_def Let_def
        write_prefix_def)

text \<open>The modelled operation gives the same result on every stream.\<close>

lemma modelled_loop_ignores_stream:
  "Dispatch_CUB_loop (DeviceReduce_ReduceByKey env) (a\<lparr>stream := s\<rparr>) i r =
   Dispatch_CUB_loop (DeviceReduce_ReduceByKey env) a i r"
proof (induction "DeviceReduce_ReduceByKey env :: ('a, 'b, ('a, 'b) rbk_memory) reduce_by_key" a i r
    rule: Dispatch_CUB_loop.induct)
  case (1 a i error bytes m)
  have "DeviceReduce_ReduceByKey env (d_temp_storage a) bytes (d_keys_in a) (d_values_in a)
          (reduction_op a) (num_items a) s (debug_synchronous a) m =
        DeviceReduce_ReduceByKey env (d_temp_storage a) bytes (d_keys_in a) (d_values_in a)
          (reduction_op a) (num_items a) (stream a) (debug_synchronous a) m"
    by (simp add: DeviceReduce_ReduceByKey_def)
  with 1 show ?case
    by (cases "i < timing_timing_iterations a")
       (simp_all add: Dispatch_CUB_loop.simps[of _ _ i])
qed

lemma modelled_operation_ignores_stream:
  "Dispatch_CUB (DeviceReduce_ReduceByKey env) (a\<lparr>stream := s\<rparr>) m =
   Dispatch_CUB (DeviceReduce_ReduceByKey env) a m"
  by (simp add: Dispatch_CUB_def modelled_loop_ignores_stream)

section \<open>The claims about \<^verbatim>\<open>Solve\<close>\<close>

text \<open>
  In the statements below \<open>ks\<close> and \<open>vs\<close> are \<^verbatim>\<open>h_keys_in\<close> and \<^verbatim>\<open>h_values_in\<close>,
  \<open>kref\<close> and \<open>vref\<close> are the output arrays before the call, \<open>eq\<close> and \<open>f\<close> are
  \<^verbatim>\<open>equality_op\<close> and \<^verbatim>\<open>reduction_op\<close>, and \<open>n\<close> is \<^verbatim>\<open>num_items\<close>. The arrays
  hold at least \<open>n\<close> elements (exactly \<open>n\<close> in the test); the input is their first \<open>n\<close>.
\<close>

text \<open>
  Claim C1. For keys and values of the same length \<open>n \<ge> 1\<close>, any equality operator and
  any reduction operator, \<^verbatim>\<open>Solve\<close> returns the number of maximal contiguous runs of
  the input, and the \<open>i\<close>-th pair it writes is the key of the \<open>i\<close>-th run with the left
  fold of the reduction operator over the values of exactly that run, in input order. The
  output arrays keep their elements beyond the runs. Every input has exactly one run
  segmentation (\<open>runs_maximal\<close>, \<open>maximal_runs_unique\<close>). Runs are contiguous: in
  the example after the theorem the key 1 opens two runs.
\<close>

theorem Solve_reduces_runs:
  assumes "1 \<le> n" "nat n \<le> length ks" "nat n \<le> length vs"
    and "nat n \<le> length kref" "nat n \<le> length vref"
    and "maximal_runs eq (take (nat n) (zip ks vs)) rs"
  shows "Solve ks kref vs vref eq f n =
           Some (map run_key rs @ drop (length rs) kref,
                 map (run_fold f) rs @ drop (length rs) vref,
                 int (length rs))"
proof -
  have "rs = runs eq (take (nat n) (zip ks vs))"
    using assms(6) by (rule maximal_runs_unique)
  with Solve_runs[OF assms(1-5), of eq f] show ?thesis
    by simp
qed

theorem Solve_reduces_runs_witness:
  "Solve [1, 1, 2, 1 :: int] [0, 0, 0, 0] [10, 20, 30, 40 :: int] [0, 0, 0, 0] (=) (+) 4 =
     Some ([1, 2, 1, 0], [30, 30, 40, 0], 3)"
proof -
  have "maximal_runs (=) (take (nat 4) (zip [1, 1, 2, 1 :: int] [10, 20, 30, 40 :: int]))
          [[(1, 10), (1, 20)], [(2, 30)], [(1, 40)]]"
    by (simp add: maximal_runs_def)
  from Solve_reduces_runs[OF _ _ _ _ _ this, of "[0, 0, 0, 0]" "[0, 0, 0, 0]" "(+)"]
  show ?thesis
    by (simp add: run_key_def run_fold_def)
qed




text \<open>
  Two of the degenerate cases of claim C3 hold of \<^verbatim>\<open>Solve\<close>. With one item it writes
  one run, the input pair itself; with \<open>n \<ge> 1\<close> items whose neighbouring keys all compare
  equal it writes one run spanning the input: the last key and the fold of all values.
\<close>

theorem Solve_degenerate:
  "(1 \<le> length ks \<and> 1 \<le> length vs \<and> 1 \<le> length kref \<and> 1 \<le> length vref \<longrightarrow>
      Solve ks kref vs vref eq f 1 = Some (kref[0 := ks ! 0], vref[0 := vs ! 0], 1)) \<and>
   (1 \<le> n \<and> nat n \<le> length ks \<and> nat n \<le> length vs \<and>
    nat n \<le> length kref \<and> nat n \<le> length vref \<and> successively eq (take (nat n) ks) \<longrightarrow>
      Solve ks kref vs vref eq f n =
        Some (kref[0 := last (take (nat n) ks)],
              vref[0 := foldl f (vs ! 0) (tl (take (nat n) vs))], 1))"
proof (intro conjI impI)
  assume a: "1 \<le> length ks \<and> 1 \<le> length vs \<and> 1 \<le> length kref \<and> 1 \<le> length vref"
  have t: "take (Suc 0) xs = [xs ! 0]" if "1 \<le> length xs" for xs :: "'c list"
    using that by (cases xs) simp_all
  from a have "Solve ks kref vs vref eq f 1 =
        Some (kref[0 := last (take (nat 1) ks)],
              vref[0 := foldl f (vs ! 0) (tl (take (nat 1) vs))], 1)"
    by (intro Solve_one_run) (simp_all add: t)
  with a show "Solve ks kref vs vref eq f 1 = Some (kref[0 := ks ! 0], vref[0 := vs ! 0], 1)"
    by (simp add: t)
next
  assume "1 \<le> n \<and> nat n \<le> length ks \<and> nat n \<le> length vs \<and>
    nat n \<le> length kref \<and> nat n \<le> length vref \<and> successively eq (take (nat n) ks)"
  then show "Solve ks kref vs vref eq f n =
        Some (kref[0 := last (take (nat n) ks)],
              vref[0 := foldl f (vs ! 0) (tl (take (nat n) vs))], 1)"
    by (intro Solve_one_run) simp_all
qed

theorem Solve_degenerate_witness:
  "Solve [5 :: int] [0] [7 :: int] [0] (=) (+) 1 = Some ([5], [7], 1) \<and>
   Solve [4, 4, 4 :: int] [0, 0, 0] [1, 2, 3 :: int] [0, 0, 0] (=) (+) 3 = Some ([4, 0, 0], [6, 0, 0], 1)"
  using Solve_degenerate[of "[5 :: int]" "[7 :: int]" "[0]" "[0]" "(=)" "(+)" 1]
    Solve_degenerate[of "[4, 4, 4 :: int]" "[1, 2, 3 :: int]" "[0, 0, 0]" "[0, 0, 0]" "(=)" "(+)" 3]
  by simp

text \<open>
  Claim C3, the case of no items. The claim asks for zero runs, zero output writes and
  success. \<^verbatim>\<open>Solve\<close> has no branch for \<^verbatim>\<open>num_items\<close> = 0: on arrays of length zero
  (what the test allocates) its first statement reads outside the keys; on arrays that
  hold an element it has written the key and the value at index 0 and returns one
  segment.
\<close>

theorem Solve_zero_items:
  "Solve ([] :: 32 word list) [] ([] :: 32 word list) [] (=) (+) 0 = None \<and>
   Solve [7 :: 32 word] [0] [9 :: 32 word] [0] (=) (+) 0 = Some ([7], [9], 1)"
  by (simp add: Solve_def load_def store_def Solve_loop.simps)

text \<open>
  Claim C4. On the keys 1, 1, 2, 2, 2, 3 and the values 10, 20, 30, 40, 50, 60 (32-bit
  integers), with \<open>+\<close> and \<open>=\<close>, \<^verbatim>\<open>Solve\<close> writes the keys 1, 2, 3 and the values
  30, 120, 60 and returns 3; the rest of the output arrays is untouched.
\<close>

theorem Solve_concrete_scenario:
  "Solve [1, 1, 2, 2, 2, 3 :: 32 word] [a0, a1, a2, a3, a4, a5]
         [10, 20, 30, 40, 50, 60 :: 32 word] [b0, b1, b2, b3, b4, b5] (=) (+) 6 =
     Some ([1, 2, 3, a3, a4, a5], [30, 120, 60, b3, b4, b5], 3)"
  by (simp add: Solve_def load_def store_def Solve_loop.simps)

text \<open>
  Claim C10. With \<open>n \<ge> 1\<close> and arrays of at least \<open>n\<close> elements, every access of
  \<^verbatim>\<open>Solve\<close> is in bounds (the run ends with a result), the returned count is between
  1 and \<open>n\<close>, and the output arrays keep their length. The bound \<open>n \<ge> 1\<close> is needed: on
  an empty key array \<^verbatim>\<open>Solve\<close> reads index 0 out of bounds, whatever \<open>n\<close> is.
\<close>

theorem Solve_in_bounds:
  "(1 \<le> n \<and> nat n \<le> length ks \<and> nat n \<le> length vs \<and>
    nat n \<le> length kref \<and> nat n \<le> length vref \<longrightarrow>
      (\<exists>kr vr c. Solve ks kref vs vref eq f n = Some (kr, vr, c) \<and>
         1 \<le> c \<and> c \<le> n \<and> length kr = length kref \<and> length vr = length vref)) \<and>
   Solve [] kref vs vref eq f n = None"
proof (intro conjI impI)
  assume a: "1 \<le> n \<and> nat n \<le> length ks \<and> nat n \<le> length vs \<and>
    nat n \<le> length kref \<and> nat n \<le> length vref"
  let ?out = "segs eq f (ks ! 0) (vs ! 0) (drop 1 (take (nat n) (zip ks vs)))"
  have ge: "1 \<le> length ?out" by (rule segs_length_ge)
  have "length ?out \<le> Suc (length (drop 1 (take (nat n) (zip ks vs))))"
    by (rule segs_length_le)
  also have "\<dots> = nat n" using a by simp
  finally have le: "length ?out \<le> nat n" .
  from a have "Solve ks kref vs vref eq f n =
      Some (overwrite kref 0 (map fst ?out), overwrite vref 0 (map snd ?out), int (length ?out))"
    by (intro Solve_segs) simp_all
  moreover have "length (overwrite kref 0 (map fst ?out)) = length kref"
    using a le by (intro length_overwrite) simp
  moreover have "length (overwrite vref 0 (map snd ?out)) = length vref"
    using a le by (intro length_overwrite) simp
  ultimately show "\<exists>kr vr c. Solve ks kref vs vref eq f n = Some (kr, vr, c) \<and>
         1 \<le> c \<and> c \<le> n \<and> length kr = length kref \<and> length vr = length vref"
    using ge le a by simp
next
  show "Solve [] kref vs vref eq f n = None"
    by (simp add: Solve_def load_def)
qed

theorem Solve_in_bounds_witness:
  "\<exists>kr vr c. Solve [5, 5, 6 :: int] [0, 0, 0] [1, 2, 3 :: int] [0, 0, 0] (=) (+) 3 = Some (kr, vr, c) \<and>
      1 \<le> c \<and> c \<le> 3 \<and> length kr = 3 \<and> length vr = 3"
  using Solve_in_bounds[of 3 "[5, 5, 6 :: int]" "[1, 2, 3 :: int]" "[0, 0, 0]" "[0, 0, 0]" "(=)" "(+)"]
  by (simp add: numeral_3_eq_3)

section \<open>The claims about the entry paths\<close>





text \<open>
  Claim C6. Two size queries (\<^verbatim>\<open>Dispatch\<close> with a null scratch pointer and at least one
  round) for the same number of items, under the same architecture and policy table,
  return the same status; when that is success they return the same byte count, which is
  that of the one layout both work with; and a query leaves the device memory as it was.
  The byte count a caller happens to pass in, the other arguments and the device memory
  play no part, so a query repeated after a query gives the same answer.
\<close>

theorem size_query_reproducible:
  assumes "d_temp_storage a = None" and "d_temp_storage a' = None"
    and "num_items a' = num_items a"
    and "0 < timing_timing_iterations a" and "0 < timing_timing_iterations a'"
  shows "fst (Dispatch_CUB (DeviceReduce_ReduceByKey env) a' m') =
           fst (Dispatch_CUB (DeviceReduce_ReduceByKey env) a m) \<and>
         (fst (Dispatch_CUB (DeviceReduce_ReduceByKey env) a m) = cudaSuccess \<longrightarrow>
            fst (snd (Dispatch_CUB (DeviceReduce_ReduceByKey env) a' m')) =
              fst (snd (Dispatch_CUB (DeviceReduce_ReduceByKey env) a m)) \<and>
            fst (snd (Dispatch_CUB (DeviceReduce_ReduceByKey env) a m)) =
              layout_bytes (query_layout env (num_items a))) \<and>
         query_layout env (num_items a') = query_layout env (num_items a) \<and>
         snd (snd (Dispatch_CUB (DeviceReduce_ReduceByKey env) a m)) = m"
  using assms by (simp add: null_storage_query)

theorem size_query_reproducible_witness:
  "fst (Dispatch_CUB (DeviceReduce_ReduceByKey sm_test)
          ((two_keys (=))\<lparr>d_temp_storage := None, temp_storage_bytes := 7\<rparr>) cleared) = cudaSuccess \<and>
   fst (snd (Dispatch_CUB (DeviceReduce_ReduceByKey sm_test)
          ((two_keys (=))\<lparr>d_temp_storage := None, temp_storage_bytes := 7\<rparr>) cleared)) = 20 \<and>
   fst (snd (Dispatch_CUB (DeviceReduce_ReduceByKey sm_test)
          ((two_keys (=))\<lparr>d_temp_storage := None\<rparr>) cleared)) = 20"
proof -
  have b: "layout_bytes (query_layout sm_test 2) = 20"
    by (simp add: query_layout_def sm_test_def TemporaryStorageLayout_def
          TemporaryStorageRequest_def num_tiles_def align_up_def)
  have s: "size_computation_status sm_test = cudaSuccess"
    by (simp add: sm_test_def cudaSuccess_def)
  from size_query_reproducible[of "(two_keys (=))\<lparr>d_temp_storage := None\<rparr>"
      "(two_keys (=))\<lparr>d_temp_storage := None, temp_storage_bytes := 7\<rparr>" sm_test cleared cleared]
  show ?thesis
    by (simp add: two_keys_def b s null_storage_query)
qed

text \<open>
  Claim C7. For every input, scratch pointer and device memory, \<^verbatim>\<open>Dispatch\<close> with
  \<^verbatim>\<open>debug_synchronous\<close> set and \<^verbatim>\<open>Dispatch\<close> with it clear leave the same output
  keys, output values and run count and return the same status; the flag only adds
  synchronisation points and log entries.
\<close>

theorem debug_synchronous_observational:
  "results (Dispatch_CUB (DeviceReduce_ReduceByKey env) (a\<lparr>debug_synchronous := True\<rparr>) m) =
   results (Dispatch_CUB (DeviceReduce_ReduceByKey env) (a\<lparr>debug_synchronous := False\<rparr>) m)"
proof -
  have "same_results (cudaSuccess, temp_storage_bytes a, m) (cudaSuccess, temp_storage_bytes a, m)"
    by (simp add: same_results_def)
  then have "same_results
      (Dispatch_CUB (DeviceReduce_ReduceByKey env) (a\<lparr>debug_synchronous := True\<rparr>) m)
      (Dispatch_CUB (DeviceReduce_ReduceByKey env) (a\<lparr>debug_synchronous := False\<rparr>) m)"
    unfolding Dispatch_CUB_def using Dispatch_CUB_loop_debug[where env = env and a = a and d = True and d' = False and i = 0]
    by simp
  then show ?thesis
    by (auto simp: same_results_def results_def core_def split: prod.splits)
qed

end
